theory Spec2Isabelle
  imports Main "HOL-Library.AList"
begin

section \<open>Python values, exceptions and containers\<close>

text \<open>
  The exceptions the program can end with.  \<open>DuplicateNameError\<close> is the program's own
  class (its \<open>filecontent\<close>, \<open>name\<close> and \<open>linenumbers\<close> attributes); the others are
  Python's built-in exceptions, raised by indexing, by \<open>+\<close> on a list and a string, by
  \<open>min\<close> of an empty list, by a missing attribute, by a dict that grows while it is
  iterated, and by the assertions inside the graph library; \<open>VisitError\<close> is the parser
  library's wrapper of an exception inside a transformer.  \<open>Unmodelled\<close> is no exception:
  it marks the one step of the program the model does not follow, \<open>str\<close> of a list, tuple
  or tree.
\<close>

datatype error =
    DuplicateNameError string string "nat \<times> nat"
  | IndexError
  | TypeError
  | ValueError
  | AttributeError
  | RuntimeError
  | AssertionError
  | VisitError
  | Unmodelled

text \<open>
  What \<open>explode_object\<close> returns: a string, or a list of such values.
\<close>

datatype ev = S string | L "ev list"

text \<open>
  One indexed object, the dict with the keys \<open>body\<close>, \<open>refs\<close> and \<open>lines\<close>.
\<close>

record obj =
  obj_body :: ev
  obj_refs :: "string list"
  obj_lines :: "nat \<times> nat"

text \<open>
  \<open>model[DATA_TAG]\<close> is a \<open>defaultdict(list)\<close>.  A Python dict keeps its keys in
  insertion order, so it is an association list with distinct keys; a new key goes to
  the end.
\<close>

type_synonym data = "(string \<times> obj list) list"

definition keys :: "('k \<times> 'v) list \<Rightarrow> 'k list" where
  "keys d = map fst d"

text \<open>
  \<open>d[k]\<close> on a \<open>defaultdict\<close>: a missing key is inserted with the default value, which
  is returned.  The dict is returned as well, since the read may have changed it.
\<close>

definition dd_get :: "'v \<Rightarrow> ('k \<times> 'v) list \<Rightarrow> 'k \<Rightarrow> 'v \<times> ('k \<times> 'v) list" where
  "dd_get dflt d k =
     (case map_of d k of
        Some v \<Rightarrow> (v, d)
      | None \<Rightarrow> (dflt, d @ [(k, dflt)]))"

text \<open>
  A Python \<open>set\<close> of strings.  Python does not fix the order in which a set is iterated;
  the model iterates in insertion order.
\<close>

definition set_add :: "'a list \<Rightarrow> 'a \<Rightarrow> 'a list" where
  "set_add xs x = (if x \<in> set xs then xs else xs @ [x])"

text \<open>\<open>sep.join(xs)\<close>\<close>

fun join :: "string \<Rightarrow> string list \<Rightarrow> string" where
  "join sep [] = []"
| "join sep [x] = x"
| "join sep (x # y # ys) = x @ sep @ join sep (y # ys)"

text \<open>\<open>x[i]\<close> and \<open>len(x)\<close> on a string or a list; an index out of range raises.\<close>

fun ev_index :: "ev \<Rightarrow> nat \<Rightarrow> error + ev" where
  "ev_index (S s) i = (if i < length s then Inr (S [s ! i]) else Inl IndexError)"
| "ev_index (L xs) i = (if i < length xs then Inr (xs ! i) else Inl IndexError)"

fun ev_len :: "ev \<Rightarrow> nat" where
  "ev_len (S s) = length s"
| "ev_len (L xs) = length xs"

section \<open>The graph library's network\<close>

text \<open>
  The \<open>Network\<close> object of the graph library, as far as the program uses it: the nodes in
  insertion order, each with the options the program sets (\<open>title\<close>, \<open>color\<close>), and the
  edges in insertion order.  A network is created with \<open>directed=True\<close>, so an edge is
  appended each time, also when it is there already.  \<open>None\<close> for a colour means that the
  program has not assigned one.
\<close>

record gnode =
  gn_title :: "string option"
  gn_color :: "string option"

record net =
  net_nodes :: "(string \<times> gnode) list"
  net_edges :: "(string \<times> string) list"

definition empty_net :: net where
  "empty_net = \<lparr>net_nodes = [], net_edges = []\<rparr>"

definition num_nodes :: "net \<Rightarrow> nat" where
  "num_nodes n = length (net_nodes n)"

text \<open>\<open>net.add_node(n_id)\<close>: an id that is there already is left as it is.\<close>

definition net_add_node :: "net \<Rightarrow> string \<Rightarrow> net" where
  "net_add_node n i =
     (if i \<in> set (keys (net_nodes n)) then n
      else n\<lparr>net_nodes := net_nodes n @ [(i, \<lparr>gn_title = None, gn_color = None\<rparr>)]\<rparr>)"

text \<open>\<open>net.add_edge(source, to)\<close> asserts that both ends are nodes.\<close>

definition net_add_edge :: "net \<Rightarrow> string \<Rightarrow> string \<Rightarrow> error + net" where
  "net_add_edge n source to =
     (if source \<notin> set (keys (net_nodes n)) then Inl AssertionError
      else if to \<notin> set (keys (net_nodes n)) then Inl AssertionError
      else Inr (n\<lparr>net_edges := net_edges n @ [(source, to)]\<rparr>))"

text \<open>
  \<open>gnode = net.get_node(node); gnode['title'] = title\<close> and, when \<open>node_color\<close> is not
  empty, \<open>gnode['color'] = node_color\<close>.
\<close>

definition set_title_color :: "net \<Rightarrow> string \<Rightarrow> string \<Rightarrow> string \<Rightarrow> net" where
  "set_title_color n i title node_color =
     n\<lparr>net_nodes :=
         map (\<lambda>(k, g). if k = i
                then (k, g\<lparr>gn_title := Some title,
                           gn_color := (if length node_color > 0 then Some node_color
                                        else gn_color g)\<rparr>)
                else (k, g))
             (net_nodes n)\<rparr>"

section \<open>add\_node\<close>

definition SPLIT_STRING_SIZE :: nat where
  "SPLIT_STRING_SIZE = 100"

definition ENTRY_NODE_COLOR :: string where
  "ENTRY_NODE_COLOR = ''indigo''"

definition FAILURE_NODE_COLOR :: string where
  "FAILURE_NODE_COLOR = ''red''"

definition NODE_COLOR :: "(string \<times> string) list" where
  "NODE_COLOR =
     [(''CARTESIAN_POINT'', ''lightgrey''),
      (''PCURVE'', ''orange''),
      (''B_SPLINE_CURVE_WITH_KNOTS'', ''palegreen''),
      (''B_SPLINE_SURFACE_WITH_KNOTS'', ''darkkhaki''),
      (''IFCCARTESIANPOINT'', ''lightgrey''),
      (''IFCPOLYLINE'', ''orange''),
      (''IFCSHAPEREPRESENTATION'', ''darkkhaki'')]"

text \<open>
  \<open>to_str\<close> is a generator that yields one string: the string itself, or the rendered
  members joined by a comma inside parentheses, an empty rendering written as two
  apostrophes.
\<close>

fun to_str :: "ev \<Rightarrow> string" where
  "to_str (S s) = s"
| "to_str (L xs) =
     ''('' @ join '', ''
               (map (\<lambda>x. let s = to_str x in if s \<noteq> [] then s else [CHR 0x27, CHR 0x27]) xs)
       @ '')''"

text \<open>
  \<open>simple_entity(body, color)\<close>.  \<open>textwrap.wrap\<close> belongs to Python's library and is the
  parameter \<open>wrap\<close>.  \<open>body[0] + str(...)\<close> raises a \<open>TypeError\<close> when \<open>body[0]\<close> is a list.
  The colour is a string, or the empty dict \<open>{}\<close> when the keyword has no entry in the
  table; the program only ever takes the length of either, so both unset colours are the
  empty string here.
\<close>

definition simple_entity ::
  "(string \<Rightarrow> nat \<Rightarrow> string list) \<Rightarrow> ev \<Rightarrow> string \<Rightarrow> error + (string \<times> string)" where
  "simple_entity wrap body color =
     (case (if ev_len body > 1
            then (case ev_index body 1 of Inl e \<Rightarrow> Inl e | Inr b1 \<Rightarrow> Inr (to_str b1))
            else Inr ''()'') of
        Inl e \<Rightarrow> Inl e
      | Inr name0 \<Rightarrow>
          (case ev_index body 0 of
             Inl e \<Rightarrow> Inl e
           | Inr (L _) \<Rightarrow> Inl TypeError
           | Inr (S b0) \<Rightarrow>
               (let name = b0 @ name0;
                    name = wrap name SPLIT_STRING_SIZE;
                    name = join ''<br>'' name;
                    color = (if length color = 0
                             then (case map_of NODE_COLOR b0 of Some c \<Rightarrow> c | None \<Rightarrow> [])
                             else color)
                in Inr (name, color))))"

text \<open>\<open>for x in body[0]\<close> of the complex-record branch.\<close>

fun complex_members ::
  "(string \<Rightarrow> nat \<Rightarrow> string list) \<Rightarrow> ev list \<Rightarrow> string \<Rightarrow> string \<Rightarrow> error + (string \<times> string)" where
  "complex_members wrap [] title node_color = Inr (title, node_color)"
| "complex_members wrap (x # xs) title node_color =
     (case simple_entity wrap x node_color of
        Inl e \<Rightarrow> Inl e
      | Inr (curr_title, node_color') \<Rightarrow>
          complex_members wrap xs
            (title @ (if length title > 0 then ''<br>'' else []) @ curr_title) node_color')"

text \<open>
  \<open>for x in body[0]\<close> iterates the characters when \<open>body[0]\<close> is a string, but that branch
  is only taken when it is not one.
\<close>

fun title_loop ::
  "(string \<Rightarrow> nat \<Rightarrow> string list) \<Rightarrow> obj list \<Rightarrow> string \<Rightarrow> string \<Rightarrow> error + (string \<times> string)" where
  "title_loop wrap [] title node_color = Inr (title, node_color)"
| "title_loop wrap (object # rest) title node_color =
     (let body = obj_body object in
      case ev_index body 0 of
        Inl e \<Rightarrow> Inl e
      | Inr (S _) \<Rightarrow>
          (case simple_entity wrap body node_color of
             Inl e \<Rightarrow> Inl e
           | Inr (title', node_color') \<Rightarrow> title_loop wrap rest title' node_color')
      | Inr (L xs) \<Rightarrow>
          (case complex_members wrap xs title node_color of
             Inl e \<Rightarrow> Inl e
           | Inr (title', node_color') \<Rightarrow> title_loop wrap rest title' node_color'))"

text \<open>
  \<open>add_node(net, node, data, force_color='')\<close>.  Both the network and \<open>data\<close> are returned:
  \<open>data[node]\<close> is a read of a \<open>defaultdict\<close>.
\<close>

definition add_node ::
  "(string \<Rightarrow> nat \<Rightarrow> string list) \<Rightarrow> net \<Rightarrow> string \<Rightarrow> data \<Rightarrow> string \<Rightarrow> error + (net \<times> data)" where
  "add_node wrap n node d force_color =
     (let node_color = (if length force_color > 0 then force_color
                        else if num_nodes n = 0 then ENTRY_NODE_COLOR else []);
          n1 = net_add_node n node;
          (objects, d1) = dd_get [] d node
      in case title_loop wrap objects [] node_color of
           Inl e \<Rightarrow> Inl e
         | Inr (title, node_color') \<Rightarrow> Inr (set_title_color n1 node title node_color', d1))"

section \<open>make\_graph\_complete\<close>

text \<open>
  \<open>for ref in object[REFS_TAG]\<close>: a reference with no key in \<open>data\<close> becomes a node of the
  failure colour; then the edge is added.
\<close>

fun complete_refs ::
  "(string \<Rightarrow> nat \<Rightarrow> string list) \<Rightarrow> string \<Rightarrow> string list \<Rightarrow> net \<Rightarrow> data \<Rightarrow> error + (net \<times> data)" where
  "complete_refs wrap node [] n d = Inr (n, d)"
| "complete_refs wrap node (ref # rest) n d =
     (case (if ref \<notin> set (keys d) then add_node wrap n ref d FAILURE_NODE_COLOR
            else Inr (n, d)) of
        Inl e \<Rightarrow> Inl e
      | Inr (n1, d1) \<Rightarrow>
          (case net_add_edge n1 node ref of
             Inl e \<Rightarrow> Inl e
           | Inr n2 \<Rightarrow> complete_refs wrap node rest n2 d1))"

text \<open>\<open>for object in data[node]\<close>\<close>

fun complete_objects ::
  "(string \<Rightarrow> nat \<Rightarrow> string list) \<Rightarrow> string \<Rightarrow> obj list \<Rightarrow> net \<Rightarrow> data \<Rightarrow> error + (net \<times> data)" where
  "complete_objects wrap node [] n d = Inr (n, d)"
| "complete_objects wrap node (object # rest) n d =
     (case complete_refs wrap node (obj_refs object) n d of
        Inl e \<Rightarrow> Inl e
      | Inr (n1, d1) \<Rightarrow> complete_objects wrap node rest n1 d1)"

text \<open>
  \<open>for node in data\<close>.  A dict iterator remembers the size of the dict and raises a
  \<open>RuntimeError\<close> at its next step, the last one included, when the size has changed.
  The loops of the program never delete a key, so until then the keys still to come are
  those of the dict as it was when the loop began: \<open>sz\<close> and \<open>todo\<close>.
\<close>

fun complete_nodes_loop ::
  "(string \<Rightarrow> nat \<Rightarrow> string list) \<Rightarrow> nat \<Rightarrow> string list \<Rightarrow> net \<Rightarrow> data \<Rightarrow> error + (net \<times> data)" where
  "complete_nodes_loop wrap sz [] n d =
     (if length d \<noteq> sz then Inl RuntimeError else Inr (n, d))"
| "complete_nodes_loop wrap sz (node # todo) n d =
     (if length d \<noteq> sz then Inl RuntimeError
      else case add_node wrap n node d [] of
             Inl e \<Rightarrow> Inl e
           | Inr (n1, d1) \<Rightarrow> complete_nodes_loop wrap sz todo n1 d1)"

fun complete_edges_loop ::
  "(string \<Rightarrow> nat \<Rightarrow> string list) \<Rightarrow> nat \<Rightarrow> string list \<Rightarrow> net \<Rightarrow> data \<Rightarrow> error + (net \<times> data)" where
  "complete_edges_loop wrap sz [] n d =
     (if length d \<noteq> sz then Inl RuntimeError else Inr (n, d))"
| "complete_edges_loop wrap sz (node # todo) n d =
     (if length d \<noteq> sz then Inl RuntimeError
      else let (objects, d0) = dd_get [] d node in
           case complete_objects wrap node objects n d0 of
             Inl e \<Rightarrow> Inl e
           | Inr (n1, d1) \<Rightarrow> complete_edges_loop wrap sz todo n1 d1)"

definition make_graph_complete ::
  "(string \<Rightarrow> nat \<Rightarrow> string list) \<Rightarrow> net \<Rightarrow> data \<Rightarrow> error + (net \<times> data)" where
  "make_graph_complete wrap n d =
     (case complete_nodes_loop wrap (length d) (keys d) n d of
        Inl e \<Rightarrow> Inl e
      | Inr (n1, d1) \<Rightarrow> complete_edges_loop wrap (length d1) (keys d1) n1 d1)"

section \<open>make\_graph\_entity\<close>

text \<open>\<open>nodes\<close> is a \<open>defaultdict(set)\<close>.\<close>

type_synonym nodes = "(string \<times> string list) list"

text \<open>
  \<open>for ref in object[REFS_TAG]: nodes[curr_entity].add(ref); new_entities.add(ref)\<close>
\<close>

fun entity_refs :: "string \<Rightarrow> string list \<Rightarrow> nodes \<Rightarrow> string list \<Rightarrow> nodes \<times> string list" where
  "entity_refs curr_entity [] nodes new_entities = (nodes, new_entities)"
| "entity_refs curr_entity (ref # rest) nodes new_entities =
     (let (s, nodes1) = dd_get [] nodes curr_entity;
          nodes2 = AList.update curr_entity (set_add s ref) nodes1
      in entity_refs curr_entity rest nodes2 (set_add new_entities ref))"

text \<open>\<open>for object in data[curr_entity]\<close>\<close>

fun entity_objects :: "string \<Rightarrow> obj list \<Rightarrow> nodes \<Rightarrow> string list \<Rightarrow> nodes \<times> string list" where
  "entity_objects curr_entity [] nodes new_entities = (nodes, new_entities)"
| "entity_objects curr_entity (object # rest) nodes new_entities =
     (let (nodes1, new1) = entity_refs curr_entity (obj_refs object) nodes new_entities
      in entity_objects curr_entity rest nodes1 new1)"

text \<open>\<open>for curr_entity in entities\<close>\<close>

fun entities_loop ::
  "(string \<Rightarrow> nat \<Rightarrow> string list) \<Rightarrow> string list \<Rightarrow> net \<Rightarrow> data \<Rightarrow> nodes \<Rightarrow> string list
     \<Rightarrow> error + (net \<times> data \<times> nodes \<times> string list)" where
  "entities_loop wrap [] n d nodes new_entities = Inr (n, d, nodes, new_entities)"
| "entities_loop wrap (curr_entity # rest) n d nodes new_entities =
     (if curr_entity \<in> set (keys nodes) then entities_loop wrap rest n d nodes new_entities
      else let (s, nodes1) = dd_get [] nodes curr_entity in
        if curr_entity \<in> set (keys d)
        then (case add_node wrap n curr_entity d [] of
                Inl e \<Rightarrow> Inl e
              | Inr (n1, d1) \<Rightarrow>
                  (let (objects, d2) = dd_get [] d1 curr_entity;
                       (nodes2, new2) = entity_objects curr_entity objects nodes1 new_entities
                   in entities_loop wrap rest n1 d2 nodes2 new2))
        else (case add_node wrap n curr_entity d FAILURE_NODE_COLOR of
                Inl e \<Rightarrow> Inl e
              | Inr (n1, d1) \<Rightarrow> entities_loop wrap rest n1 d1 nodes1 new_entities))"

text \<open>
  \<open>while len(entities) > 0\<close>.  The loop is not structurally recursive; \<open>None\<close> is the
  loop that does not end.
\<close>

partial_function (option) entity_while ::
  "(string \<Rightarrow> nat \<Rightarrow> string list) \<Rightarrow> net \<Rightarrow> data \<Rightarrow> nodes \<Rightarrow> string list
     \<Rightarrow> (error + (net \<times> data \<times> nodes)) option" where
  "entity_while wrap n d nodes entities =
     (if length entities > 0
      then (case entities_loop wrap entities n d nodes [] of
              Inl e \<Rightarrow> Some (Inl e)
            | Inr (n1, d1, nodes1, new_entities) \<Rightarrow> entity_while wrap n1 d1 nodes1 new_entities)
      else Some (Inr (n, d, nodes)))"

declare entity_while.simps [code]

text \<open>\<open>for ref in nodes[node]: net.add_edge(node, ref)\<close>\<close>

fun entity_edges_refs :: "string \<Rightarrow> string list \<Rightarrow> net \<Rightarrow> error + net" where
  "entity_edges_refs node [] n = Inr n"
| "entity_edges_refs node (ref # rest) n =
     (case net_add_edge n node ref of
        Inl e \<Rightarrow> Inl e
      | Inr n1 \<Rightarrow> entity_edges_refs node rest n1)"

text \<open>\<open>for node in nodes\<close>; the key is there, so \<open>nodes[node]\<close> leaves \<open>nodes\<close> as it is.\<close>

fun entity_edges :: "nodes \<Rightarrow> net \<Rightarrow> error + net" where
  "entity_edges [] n = Inr n"
| "entity_edges ((node, s) # rest) n =
     (case entity_edges_refs node s n of
        Inl e \<Rightarrow> Inl e
      | Inr n1 \<Rightarrow> entity_edges rest n1)"

definition make_graph_entity ::
  "(string \<Rightarrow> nat \<Rightarrow> string list) \<Rightarrow> net \<Rightarrow> data \<Rightarrow> string \<Rightarrow> (error + (net \<times> data)) option" where
  "make_graph_entity wrap n d entity =
     (case entity_while wrap n d [] [entity] of
        None \<Rightarrow> None
      | Some (Inl e) \<Rightarrow> Some (Inl e)
      | Some (Inr (n1, d1, nodes)) \<Rightarrow>
          Some (case entity_edges nodes n1 of
                  Inl e \<Rightarrow> Inl e
                | Inr n2 \<Rightarrow> Inr (n2, d1)))"

section \<open>The parse tree and the transformer T\<close>

text \<open>
  What the parser library returns: a \<open>Tree\<close> has the name of a grammar rule and its
  children, a \<open>Token\<close> has the name of its terminal, its text and its line.  The library
  leaves the unnamed string literals of a rule (\<open>"("\<close>, \<open>";"\<close>, \<open>"'"\<close>, the first digit of a
  binary, ...) out of the tree and keeps the named terminals and the unnamed regular
  expressions (the text of a \<open>keyword\<close> and of an \<open>id\<close>).
\<close>

datatype ptree = Tree string "ptree list" | Token string string nat

text \<open>
  The values the transformer builds.  A token is a \<open>str\<close> too, but \<open>isinstance(t, Token)\<close>
  tells it from a plain \<open>str\<close>.  A float is kept by its \<open>str\<close>, the only thing the program
  does with it.
\<close>

datatype pyval =
    PStr string
  | PToken string string nat
  | PInt int
  | PFloat string
  | PTuple "pyval list"
  | PList "pyval list"
  | PTree string "pyval list"

text \<open>\<open>str(i)\<close> of an integer.\<close>

definition digit_char :: "nat \<Rightarrow> char" where
  "digit_char n = char_of (48 + n)"

fun str_nat :: "nat \<Rightarrow> string" where
  "str_nat n = (if n < 10 then [digit_char n] else str_nat (n div 10) @ [digit_char (n mod 10)])"

definition str_int :: "int \<Rightarrow> string" where
  "str_int i = (if i < 0 then CHR ''-'' # str_nat (nat (- i)) else str_nat (nat i))"

text \<open>
  \<open>int(text)\<close> on the texts the terminal \<open>INT\<close> can have: an optional sign and digits.  Any
  other text is a \<open>ValueError\<close> here (Python also reads blanks around the number and
  underscores inside it, which the terminal never has).
\<close>

definition is_digit :: "char \<Rightarrow> bool" where
  "is_digit c = (48 \<le> (of_char c :: nat) \<and> (of_char c :: nat) \<le> 57)"

definition digit_val :: "char \<Rightarrow> nat" where
  "digit_val c = of_char c - 48"

definition nat_of_digits :: "string \<Rightarrow> nat" where
  "nat_of_digits ds = foldl (\<lambda>a c. 10 * a + digit_val c) 0 ds"

definition digits :: "string \<Rightarrow> bool" where
  "digits ds = (ds \<noteq> [] \<and> list_all is_digit ds)"

definition int_of_text :: "string \<Rightarrow> int option" where
  "int_of_text s =
     (case s of
        [] \<Rightarrow> None
      | c # ds \<Rightarrow>
          if c = CHR ''+'' then (if digits ds then Some (int (nat_of_digits ds)) else None)
          else if c = CHR ''-'' then (if digits ds then Some (- int (nat_of_digits ds)) else None)
          else (if digits s then Some (int (nat_of_digits s)) else None))"

text \<open>
  \<open>"".join(s)\<close>: every member has to be a string; a token is one.
\<close>

fun py_join :: "pyval list \<Rightarrow> error + string" where
  "py_join [] = Inr []"
| "py_join (PStr x # rest) = (case py_join rest of Inl e \<Rightarrow> Inl e | Inr r \<Rightarrow> Inr (x @ r))"
| "py_join (PToken ty x ln # rest) = (case py_join rest of Inl e \<Rightarrow> Inl e | Inr r \<Rightarrow> Inr (x @ r))"
| "py_join (_ # rest) = Inl TypeError"

text \<open>\<open>s[0]\<close> and \<open>s[0] if len(s) > 0 else ''\<close>\<close>

definition first :: "pyval list \<Rightarrow> error + pyval" where
  "first s = (case s of [] \<Rightarrow> Inl IndexError | x # _ \<Rightarrow> Inr x)"

definition first_or_empty :: "pyval list \<Rightarrow> error + pyval" where
  "first_or_empty s = (if length s > 0 then first s else Inr (PStr []))"

text \<open>
  The methods and attributes of the class \<open>T\<close>, by the name of the rule.  A rule with no
  method stays a tree of its transformed children.
\<close>

definition rule_callback :: "string \<Rightarrow> pyval list \<Rightarrow> error + pyval" where
  "rule_callback rule s =
     (if rule = ''id'' then first s
      else if rule = ''string'' then (case py_join s of Inl e \<Rightarrow> Inl e | Inr w \<Rightarrow> Inr (PStr w))
      else if rule = ''keyword'' then (case py_join s of Inl e \<Rightarrow> Inl e | Inr w \<Rightarrow> Inr (PStr w))
      else if rule = ''untyped_parameter'' then first_or_empty s
      else if rule = ''typed_parameter'' then first_or_empty s
      else if rule = ''parameter'' then first_or_empty s
      else if rule = ''omitted_parameter'' then first s
      else if rule = ''enumeration'' then first s
      else if rule = ''parameter_list'' then Inr (PTuple s)
      else if rule = ''list'' then Inr (PList s)
      else if rule = ''simple_record'' then Inr (PTuple s)
      else if rule = ''subsuper_record'' then Inr (PTuple s)
      else if rule = ''simple_record_list'' then Inr (PTuple s)
      else Inr (PTree rule s))"

text \<open>
  The attributes of \<open>T\<close> named after a terminal (\<open>visit_tokens=True\<close>): \<open>INT = int\<close>,
  \<open>REAL = float\<close>, \<open>NONE = str\<close>, \<open>STAR = str\<close>.  Any other token stays a token.  The
  parameter \<open>float_str\<close> is \<open>str(float(text))\<close> of Python's floating point.
\<close>

definition token_callback :: "(string \<Rightarrow> string) \<Rightarrow> string \<Rightarrow> string \<Rightarrow> nat \<Rightarrow> error + pyval" where
  "token_callback float_str ty v ln =
     (if ty = ''INT'' then (case int_of_text v of None \<Rightarrow> Inl ValueError | Some i \<Rightarrow> Inr (PInt i))
      else if ty = ''REAL'' then Inr (PFloat (float_str v))
      else if ty = ''NONE'' then Inr (PStr v)
      else if ty = ''STAR'' then Inr (PStr v)
      else Inr (PToken ty v ln))"

text \<open>
  \<open>T(visit_tokens=True).transform(tree)\<close>: bottom-up, the children first and from left to
  right, then the rule's method on the list of the transformed children.
\<close>

fun transform :: "(string \<Rightarrow> string) \<Rightarrow> ptree \<Rightarrow> error + pyval"
  and transform_children :: "(string \<Rightarrow> string) \<Rightarrow> ptree list \<Rightarrow> error + pyval list" where
  "transform float_str (Token ty v ln) = token_callback float_str ty v ln"
| "transform float_str (Tree rule cs) =
     (case transform_children float_str cs of
        Inl e \<Rightarrow> Inl e
      | Inr s \<Rightarrow> rule_callback rule s)"
| "transform_children float_str [] = Inr []"
| "transform_children float_str (c # cs) =
     (case transform float_str c of
        Inl e \<Rightarrow> Inl e
      | Inr v \<Rightarrow>
          (case transform_children float_str cs of
             Inl e \<Rightarrow> Inl e
           | Inr vs \<Rightarrow> Inr (v # vs)))"

section \<open>explore\_data\<close>

text \<open>
  \<open>str(t)\<close> of a value that is no list, tuple or tree.  Of those Python gives the \<open>repr\<close>,
  which is not modelled: \<open>None\<close>.
\<close>

fun py_str :: "pyval \<Rightarrow> string option" where
  "py_str (PStr s) = Some s"
| "py_str (PToken ty v ln) = Some v"
| "py_str (PInt i) = Some (str_int i)"
| "py_str (PFloat r) = Some r"
| "py_str _ = None"

text \<open>
  \<open>explode_object(t, refs)\<close>: the value \<open>a\<close> it returns and the list \<open>refs\<close> as it leaves it.
\<close>

fun explode_object :: "pyval \<Rightarrow> string list \<Rightarrow> ev \<times> string list"
  and explode_members :: "pyval list \<Rightarrow> string list \<Rightarrow> ev list \<times> string list" where
  "explode_object (PList xs) refs = (let (a, refs') = explode_members xs refs in (L a, refs'))"
| "explode_object (PTuple xs) refs = (let (a, refs') = explode_members xs refs in (L a, refs'))"
| "explode_object (PTree rule xs) refs = (let (a, refs') = explode_members xs refs in (L a, refs'))"
| "explode_object (PToken ty v ln) refs = (S v, refs @ [v])"
| "explode_object (PStr s) refs = (S s, refs)"
| "explode_object (PInt i) refs = (S (str_int i), refs)"
| "explode_object (PFloat r) refs = (S r, refs)"
| "explode_members [] refs = ([], refs)"
| "explode_members (x # xs) refs =
     (let (a, refs1) = explode_object x refs;
          (as, refs2) = explode_members xs refs1
      in (a # as, refs2))"

text \<open>
  \<open>list(traverse(get_line_number, entity))\<close>: the lines of the tokens that are reached
  through trees only.
\<close>

fun traverse_lines :: "pyval \<Rightarrow> nat list"
  and traverse_children :: "pyval list \<Rightarrow> nat list" where
  "traverse_lines (PToken ty v ln) = [ln]"
| "traverse_lines (PTree rule cs) = traverse_children cs"
| "traverse_lines (PStr s) = []"
| "traverse_lines (PInt i) = []"
| "traverse_lines (PFloat r) = []"
| "traverse_lines (PTuple xs) = []"
| "traverse_lines (PList xs) = []"
| "traverse_children [] = []"
| "traverse_children (c # cs) = traverse_lines c @ traverse_children cs"

text \<open>\<open>x.children\<close>: only a tree has the attribute.  \<open>xs[i]\<close> on a list.\<close>

fun children :: "pyval \<Rightarrow> error + pyval list" where
  "children (PTree rule cs) = Inr cs"
| "children _ = Inl AttributeError"

definition item :: "'a list \<Rightarrow> nat \<Rightarrow> error + 'a" where
  "item xs i = (if i < length xs then Inr (xs ! i) else Inl IndexError)"

text \<open>
  The body of the loop \<open>for entity in data_tree.children\<close>, on the index \<open>objects\<close> built so
  far.  \<open>min\<close> of no line is a \<open>ValueError\<close>.  The test \<open>objects[id]\<close> is a read of the
  \<open>defaultdict\<close>.
\<close>

definition explore_entity :: "string \<Rightarrow> data \<Rightarrow> pyval \<Rightarrow> error + data" where
  "explore_entity filecontent objects entity =
     (let lines = traverse_lines entity in
      case children entity of Inl e \<Rightarrow> Inl e | Inr cs \<Rightarrow>
      case item cs 0 of Inl e \<Rightarrow> Inl e | Inr entity_instance \<Rightarrow>
      case children entity_instance of Inl e \<Rightarrow> Inl e | Inr ics \<Rightarrow>
      case item ics 0 of Inl e \<Rightarrow> Inl e | Inr idv \<Rightarrow>
      case py_str idv of None \<Rightarrow> Inl Unmodelled | Some ident \<Rightarrow>
      case item ics 1 of Inl e \<Rightarrow> Inl e | Inr record \<Rightarrow>
        (let (body, refs) = explode_object record [] in
         if lines = [] then Inl ValueError
         else let lines_range = (Min (set lines), Max (set lines));
                  (found, objects1) = dd_get [] objects ident
              in if found \<noteq> [] then Inl (DuplicateNameError filecontent ident lines_range)
                 else let object = \<lparr>obj_body = body, obj_refs = refs, obj_lines = lines_range\<rparr>;
                          (found2, objects2) = dd_get [] objects1 ident
                      in Inr (AList.update ident (found2 @ [object]) objects2)))"

fun explore_entities :: "string \<Rightarrow> data \<Rightarrow> pyval list \<Rightarrow> error + data" where
  "explore_entities filecontent objects [] = Inr objects"
| "explore_entities filecontent objects (entity # rest) =
     (case explore_entity filecontent objects entity of
        Inl e \<Rightarrow> Inl e
      | Inr objects1 \<Rightarrow> explore_entities filecontent objects1 rest)"

definition explore_data :: "string \<Rightarrow> pyval \<Rightarrow> error + data" where
  "explore_data filecontent data_tree =
     (case children data_tree of
        Inl e \<Rightarrow> Inl e
      | Inr es \<Rightarrow> explore_entities filecontent [] es)"

text \<open>
  \<open>explore_model\<close>: the transformer, then \<open>explore_data\<close> on the third child of the file,
  its data section.  An exception inside the transformer reaches the caller wrapped in
  the library's \<open>VisitError\<close>.
\<close>

definition explore_model :: "(string \<Rightarrow> string) \<Rightarrow> string \<Rightarrow> ptree \<Rightarrow> error + data" where
  "explore_model float_str filecontent entity_tree =
     (case transform float_str entity_tree of
        Inl e \<Rightarrow> Inl VisitError
      | Inr t \<Rightarrow>
          (case children t of Inl e \<Rightarrow> Inl e | Inr cs \<Rightarrow>
           case item cs 2 of Inl e \<Rightarrow> Inl e | Inr data_tree \<Rightarrow>
             explore_data filecontent data_tree))"

section \<open>References of a record, on the parse tree\<close>

text \<open>The texts of the tokens among some children.\<close>

fun token_texts :: "ptree list \<Rightarrow> string list" where
  "token_texts [] = []"
| "token_texts (Token ty v ln # cs) = v # token_texts cs"
| "token_texts (Tree rule xs # cs) = token_texts cs"

text \<open>
  The references of a parse tree in the words of the specification: every \<open>id\<close> found in
  it, in order of appearance, whatever it is nested in.
\<close>

fun spec_refs :: "ptree \<Rightarrow> string list"
  and spec_refs_list :: "ptree list \<Rightarrow> string list" where
  "spec_refs (Token ty v ln) = []"
| "spec_refs (Tree rule cs) = (if rule = ''id'' then token_texts cs else spec_refs_list cs)"
| "spec_refs_list [] = []"
| "spec_refs_list (c # cs) = spec_refs c @ spec_refs_list cs"

text \<open>The same, but for what is inside a typed parameter.\<close>

fun outer_refs :: "ptree \<Rightarrow> string list"
  and outer_refs_list :: "ptree list \<Rightarrow> string list" where
  "outer_refs (Token ty v ln) = []"
| "outer_refs (Tree rule cs) =
     (if rule = ''id'' then token_texts cs
      else if rule = ''typed_parameter'' then []
      else outer_refs_list cs)"
| "outer_refs_list [] = []"
| "outer_refs_list (c # cs) = outer_refs c @ outer_refs_list cs"

text \<open>
  The terminals that \<open>T\<close> has an attribute for.  The texts of a keyword, of an id and of a
  string are tokens of other terminals.
\<close>

definition T_terminals :: "string list" where
  "T_terminals = [''INT'', ''REAL'', ''NONE'', ''STAR'']"

fun is_text_token :: "ptree \<Rightarrow> bool" where
  "is_text_token (Token ty v ln) = (ty \<notin> set T_terminals)"
| "is_text_token (Tree rule cs) = False"

text \<open>
  The parse trees of the grammar below a record, with no \<open>binary\<close> in them:
  \<open>simple_record: keyword "(" parameter_list? ")"\<close>,
  \<open>subsuper_record: "(" simple_record_list ")"\<close>, \<open>parameter_list\<close> and \<open>list\<close> of parameters,
  \<open>parameter: typed_parameter | untyped_parameter | omitted_parameter\<close>,
  \<open>typed_parameter: keyword "(" parameter ")" | "()"\<close>,
  \<open>untyped_parameter: string | NONE | INT | REAL | enumeration | id | binary | list\<close>,
  \<open>omitted_parameter: STAR\<close>, \<open>enumeration: "." keyword "."\<close>, and the terminals
  \<open>INT: SIGN? DIGIT (DIGIT)*\<close>, \<open>NONE\<close>, \<open>REAL\<close>, \<open>STAR\<close>.
\<close>

fun conforms :: "ptree \<Rightarrow> bool"
  and conforms_all :: "ptree list \<Rightarrow> bool" where
  "conforms (Token ty v ln) =
     (ty \<in> set T_terminals \<and> (if ty = ''INT'' then int_of_text v \<noteq> None else True))"
| "conforms (Tree rule cs) =
     (if rule = ''id'' then length cs = 1 \<and> list_all is_text_token cs
      else if rule = ''keyword'' then length cs = 1 \<and> list_all is_text_token cs
      else if rule = ''string'' then list_all is_text_token cs
      else if rule = ''omitted_parameter'' then
        (case cs of [Token ty v ln] \<Rightarrow> ty = ''STAR'' | _ \<Rightarrow> False)
      else if rule = ''typed_parameter'' then
        (case cs of
           [] \<Rightarrow> True
         | [Tree krule ks, p] \<Rightarrow>
             krule = ''keyword'' \<and> length ks = 1 \<and> list_all is_text_token ks \<and> conforms p
         | _ \<Rightarrow> False)
      else if rule = ''untyped_parameter'' then length cs = 1 \<and> conforms_all cs
      else if rule = ''parameter'' then length cs = 1 \<and> conforms_all cs
      else if rule = ''enumeration'' then length cs = 1 \<and> conforms_all cs
      else if rule = ''list'' then conforms_all cs
      else if rule = ''parameter_list'' then conforms_all cs
      else if rule = ''simple_record'' then conforms_all cs
      else if rule = ''simple_record_list'' then conforms_all cs
      else if rule = ''subsuper_record'' then conforms_all cs
      else False)"
| "conforms_all [] = True"
| "conforms_all (c # cs) = (conforms c \<and> conforms_all cs)"

section \<open>DuplicateNameError.asdict\<close>

text \<open>\<open>text.split("\\n")\<close>: the lines of a text; there is always at least one.\<close>

fun split_lines :: "string \<Rightarrow> string list" where
  "split_lines [] = [[]]"
| "split_lines (c # cs) =
     (if c = CHR 0x0A then [] # split_lines cs
      else (case split_lines cs of
              [] \<Rightarrow> [[c]]
            | l # ls \<Rightarrow> (c # l) # ls))"

text \<open>
  \<open>xs[i - 1]\<close> for a line number \<open>i\<close>: the index \<open>-1\<close> of the line number 0 is the last
  member.
\<close>

definition line_at :: "string list \<Rightarrow> nat \<Rightarrow> error + string" where
  "line_at ls i =
     (if i = 0 then (if ls = [] then Inl IndexError else Inr (last ls))
      else item ls (i - 1))"

text \<open>
  The dict that \<open>asdict\<close> returns, without its \<open>message\<close>, which is the same fields as one
  text.
\<close>

record duplicate_dict =
  dd_type :: string
  dd_name :: string
  dd_lineno :: nat
  dd_line :: string

definition duplicate_asdict :: "string \<Rightarrow> string \<Rightarrow> nat \<times> nat \<Rightarrow> error + duplicate_dict" where
  "duplicate_asdict filecontent name linenumbers =
     (case line_at (split_lines filecontent) (fst linenumbers) of
        Inl e \<Rightarrow> Inl e
      | Inr l \<Rightarrow> Inr \<lparr>dd_type = ''duplicate_name'', dd_name = name,
                        dd_lineno = fst linenumbers, dd_line = l\<rparr>)"

section \<open>Entities as the indexer meets them\<close>

text \<open>
  The tree of one entity instance after the transformer, for the grammar rules
  \<open>entity_instance: simple_entity_instance | complex_entity_instance\<close> and
  \<open>simple_entity_instance: id "=" simple_record ";"\<close> (the complex one alike): the rule
  \<open>id\<close> has become its token, the record the tuple of its members.
\<close>

record entity_src =
  e_kind :: string
  e_terminal :: string
  e_id :: string
  e_line :: nat
  e_members :: "pyval list"

definition entity_of :: "entity_src \<Rightarrow> pyval" where
  "entity_of x =
     PTree ''entity_instance''
       [PTree (e_kind x) [PToken (e_terminal x) (e_id x) (e_line x), PTuple (e_members x)]]"

text \<open>The object the indexer stores for it.\<close>

definition object_of :: "entity_src \<Rightarrow> obj" where
  "object_of x =
     \<lparr>obj_body = fst (explode_object (PTuple (e_members x)) []),
      obj_refs = snd (explode_object (PTuple (e_members x)) []),
      obj_lines = (e_line x, e_line x)\<rparr>"

text \<open>Every reference of every object of the index, in order.\<close>

definition data_refs :: "data \<Rightarrow> string list" where
  "data_refs d = concat (map obj_refs (concat (map snd d)))"

section \<open>Example data sections\<close>

text \<open>
  The index of the data section \<open>#1=FOO(#2);\<close>: one entity, whose only reference has no
  entity of its own.
\<close>

definition dangling_data :: data where
  "dangling_data =
     [(''#1'', [\<lparr>obj_body = L [S ''FOO'', L [S ''#2'']], obj_refs = [''#2''],
                 obj_lines = (1, 1)\<rparr>])]"

text \<open>
  The index of the data section \<open>#1=FOO(#2);\<close> \<open>#2=PCURVE(#1);\<close>: a cycle of references.
\<close>

definition cycle_data :: data where
  "cycle_data =
     [(''#1'', [\<lparr>obj_body = L [S ''FOO'', L [S ''#2'']], obj_refs = [''#2''],
                 obj_lines = (1, 1)\<rparr>]),
      (''#2'', [\<lparr>obj_body = L [S ''PCURVE'', L [S ''#1'']], obj_refs = [''#1''],
                 obj_lines = (2, 2)\<rparr>])]"

text \<open>
  The index of the data section \<open>#1=CARTESIAN_POINT('',(0.,0.,0.));\<close>: the keyword has a
  colour in the table.
\<close>

definition entry_data :: data where
  "entry_data =
     [(''#1'', [\<lparr>obj_body = L [S ''CARTESIAN_POINT'', L [S [], L [S ''0.0'', S ''0.0'', S ''0.0'']]],
                 obj_refs = [], obj_lines = (1, 1)\<rparr>])]"

text \<open>
  The parse tree of the record \<open>FOO(BAR(#2))\<close>: its one parameter is a typed parameter
  around a reference.
\<close>

definition typed_ref_record :: ptree where
  "typed_ref_record =
     Tree ''simple_record''
       [Tree ''keyword'' [Token ''__ANON_0'' ''FOO'' 1],
        Tree ''parameter_list''
          [Tree ''parameter''
             [Tree ''typed_parameter''
                [Tree ''keyword'' [Token ''__ANON_0'' ''BAR'' 1],
                 Tree ''parameter''
                   [Tree ''untyped_parameter''
                      [Tree ''id'' [Token ''__ANON_1'' ''#2'' 1]]]]]]]"

text \<open>
  The parse tree of the record \<open>FOO("0AF")\<close>: its one parameter is a binary, whose first
  digit is an unnamed literal of the rule and whose other digits are \<open>HEX\<close> tokens.
\<close>

definition binary_record :: ptree where
  "binary_record =
     Tree ''simple_record''
       [Tree ''keyword'' [Token ''__ANON_0'' ''FOO'' 1],
        Tree ''parameter_list''
          [Tree ''parameter''
             [Tree ''untyped_parameter''
                [Tree ''binary'' [Token ''HEX'' ''A'' 1, Token ''HEX'' ''F'' 1]]]]]"

text \<open>
  The parse tree of the record \<open>FOO(#2,(#3,#2),$,*,.T.,'a',7,BAR(#9))\<close>.
\<close>

definition nested_record :: ptree where
  "nested_record =
     Tree ''simple_record''
       [Tree ''keyword'' [Token ''__ANON_0'' ''FOO'' 1],
        Tree ''parameter_list''
          [Tree ''parameter'' [Tree ''untyped_parameter'' [Tree ''id'' [Token ''__ANON_1'' ''#2'' 1]]],
           Tree ''parameter'' [Tree ''untyped_parameter''
             [Tree ''list''
                [Tree ''parameter'' [Tree ''untyped_parameter'' [Tree ''id'' [Token ''__ANON_1'' ''#3'' 1]]],
                 Tree ''parameter'' [Tree ''untyped_parameter'' [Tree ''id'' [Token ''__ANON_1'' ''#2'' 1]]]]]],
           Tree ''parameter'' [Tree ''untyped_parameter'' [Token ''NONE'' ''$'' 1]],
           Tree ''parameter'' [Tree ''omitted_parameter'' [Token ''STAR'' ''*'' 1]],
           Tree ''parameter'' [Tree ''untyped_parameter''
             [Tree ''enumeration'' [Tree ''keyword'' [Token ''__ANON_0'' ''T'' 1]]]],
           Tree ''parameter'' [Tree ''untyped_parameter'' [Tree ''string'' [Token ''LOWER'' ''a'' 1]]],
           Tree ''parameter'' [Tree ''untyped_parameter'' [Token ''INT'' ''7'' 1]],
           Tree ''parameter''
             [Tree ''typed_parameter''
                [Tree ''keyword'' [Token ''__ANON_0'' ''BAR'' 1],
                 Tree ''parameter''
                   [Tree ''untyped_parameter''
                      [Tree ''id'' [Token ''__ANON_1'' ''#9'' 1]]]]]]]"

text \<open>The two entities \<open>#1=FOO();\<close> on line 1 and \<open>#1=BAR();\<close> on line 2, transformed.\<close>

definition duplicate_entities :: "entity_src list" where
  "duplicate_entities =
     [\<lparr>e_kind = ''simple_entity_instance'', e_terminal = ''__ANON_1'', e_id = ''#1'',
       e_line = 1, e_members = [PStr ''FOO'']\<rparr>,
      \<lparr>e_kind = ''simple_entity_instance'', e_terminal = ''__ANON_1'', e_id = ''#1'',
       e_line = 2, e_members = [PStr ''BAR'']\<rparr>]"

section \<open>Properties of the graph builder\<close>

lemma map_of_None_keys: "k \<notin> set (keys d) \<Longrightarrow> map_of d k = None"
  by (simp add: keys_def map_of_eq_None_iff)

subsection \<open>An unknown root\<close>

text \<open>
  C6.  In the rooted mode, started on an empty network, a root id that is no key of the
  index gives a network of exactly one node, that root, with the failure colour and an
  empty title, and no edge; no exception is raised and the loop ends.  The read
  \<open>data[node]\<close> inside \<open>add_node\<close> leaves the root as a key of the index, with no object.
\<close>

theorem rooted_unknown_root:
  assumes "entity \<notin> set (keys d)"
  shows "make_graph_entity wrap empty_net d entity =
           Some (Inr (\<lparr>net_nodes = [(entity, \<lparr>gn_title = Some [],
                                                gn_color = Some FAILURE_NODE_COLOR\<rparr>)],
                       net_edges = []\<rparr>,
                      d @ [(entity, [])]))"
proof -
  have a: "add_node wrap empty_net entity d FAILURE_NODE_COLOR =
        Inr (\<lparr>net_nodes = [(entity, \<lparr>gn_title = Some [],
                                       gn_color = Some FAILURE_NODE_COLOR\<rparr>)],
              net_edges = []\<rparr>, d @ [(entity, [])])"
    using assms
    by (simp add: add_node_def dd_get_def map_of_None_keys net_add_node_def empty_net_def
        keys_def set_title_color_def FAILURE_NODE_COLOR_def)
  have l: "entities_loop wrap [entity] empty_net d [] [] =
      Inr (\<lparr>net_nodes = [(entity, \<lparr>gn_title = Some [],
                                     gn_color = Some FAILURE_NODE_COLOR\<rparr>)],
            net_edges = []\<rparr>, d @ [(entity, [])], [(entity, [])], [])"
    using assms by (simp add: a dd_get_def) (simp add: keys_def)
  show ?thesis
    unfolding make_graph_entity_def
    apply (subst entity_while.simps)
    apply (simp only: l list.size)
    apply simp
    apply (subst entity_while.simps)
    apply simp
    done
qed

theorem rooted_unknown_root_witness:
  "''#7'' \<notin> set (keys dangling_data) \<and>
   (\<forall>wrap. make_graph_entity wrap empty_net dangling_data ''#7'' =
     Some (Inr (\<lparr>net_nodes = [(''#7'', \<lparr>gn_title = Some [], gn_color = Some ''red''\<rparr>)],
                 net_edges = []\<rparr>,
                dangling_data @ [(''#7'', [])])))"
proof -
  have h: "''#7'' \<notin> set (keys dangling_data)"
    by (simp add: keys_def dangling_data_def)
  show ?thesis
    using h rooted_unknown_root [OF h] by (simp add: FAILURE_NODE_COLOR_def)
qed

lemma map_of_Some_keys: "map_of d k = Some v \<Longrightarrow> k \<in> set (keys d)"
  by (force simp: keys_def dest: map_of_SomeD)

lemma dd_get_keys: "dd_get dflt d k = (v, d') \<Longrightarrow> set (keys d') = insert k (set (keys d))"
  by (cases "map_of d k") (auto simp: dd_get_def dest: map_of_Some_keys, auto simp: keys_def)

subsection \<open>A colour that is set is kept\<close>

lemma simple_entity_color:
  "simple_entity wrap body c = Inr (t, c') \<Longrightarrow> c \<noteq> [] \<Longrightarrow> c' = c"
  by (auto simp: simple_entity_def Let_def split: sum.splits ev.splits if_splits)

lemma complex_members_color:
  "complex_members wrap xs t c = Inr (t', c') \<Longrightarrow> c \<noteq> [] \<Longrightarrow> c' = c"
proof (induction xs arbitrary: t c)
  case Nil
  then show ?case by simp
next
  case (Cons x xs)
  then show ?case
    by (auto split: sum.splits dest: simple_entity_color)
qed

lemma title_loop_color:
  "title_loop wrap os t c = Inr (t', c') \<Longrightarrow> c \<noteq> [] \<Longrightarrow> c' = c"
proof (induction os arbitrary: t c)
  case Nil
  then show ?case by simp
next
  case (Cons x xs)
  then show ?case
    by (auto simp: Let_def split: sum.splits ev.splits dest: simple_entity_color complex_members_color)
qed

lemma add_node_Inr:
  assumes "add_node wrap n node d fc = Inr (n1, d1)"
  shows "\<exists>t c. title_loop wrap (fst (dd_get [] d node)) []
                 (if length fc > 0 then fc
                  else if num_nodes n = 0 then ENTRY_NODE_COLOR else []) = Inr (t, c)
               \<and> n1 = set_title_color (net_add_node n node) node t c
               \<and> d1 = snd (dd_get [] d node)"
proof (cases "title_loop wrap (fst (dd_get [] d node)) []
                 (if length fc > 0 then fc
                  else if num_nodes n = 0 then ENTRY_NODE_COLOR else [])")
  case (Inl e)
  with assms show ?thesis
    by (simp add: add_node_def Let_def split_beta)
next
  case (Inr p)
  with assms show ?thesis
    by (cases p) (simp add: add_node_def Let_def split_beta)
qed

lemma add_node_first:
  assumes "add_node wrap empty_net k d [] = Inr (n1, d1)"
  shows "\<exists>t. net_nodes n1 = [(k, \<lparr>gn_title = Some t, gn_color = Some ENTRY_NODE_COLOR\<rparr>)]"
proof -
  from add_node_Inr[OF assms] obtain t c where
    tl: "title_loop wrap (fst (dd_get [] d k)) [] ENTRY_NODE_COLOR = Inr (t, c)"
    and n1: "n1 = set_title_color (net_add_node empty_net k) k t c"
    by (auto simp: num_nodes_def empty_net_def)
  from title_loop_color[OF tl] have c: "c = ENTRY_NODE_COLOR"
    by (simp add: ENTRY_NODE_COLOR_def)
  show ?thesis
    unfolding n1 c
    by (simp add: set_title_color_def net_add_node_def empty_net_def keys_def
        ENTRY_NODE_COLOR_def)
qed

lemma add_node_keeps_head:
  assumes "add_node wrap n node d fc = Inr (n1, d1)" and "take 1 (net_nodes n) = [(k, g)]"
    and "node \<noteq> k"
  shows "take 1 (net_nodes n1) = [(k, g)]"
proof -
  obtain r where r: "net_nodes n = (k, g) # r"
    using assms(2) by (cases "net_nodes n") auto
  from add_node_Inr[OF assms(1)] obtain t c where
    n1: "n1 = set_title_color (net_add_node n node) node t c" by blast
  show ?thesis
    unfolding n1 using r assms(3)
    by (simp add: set_title_color_def net_add_node_def)
qed

lemma add_node_keys:
  assumes "add_node wrap n node d fc = Inr (n1, d1)"
  shows "set (keys d1) = insert node (set (keys d))"
proof -
  from add_node_Inr[OF assms] have "d1 = snd (dd_get [] d node)" by blast
  then show ?thesis
    using dd_get_keys[of "[]" d node "fst (dd_get [] d node)" d1] by simp
qed

lemma net_add_edge_nodes:
  "net_add_edge n a b = Inr n1 \<Longrightarrow> net_nodes n1 = net_nodes n"
  by (auto simp: net_add_edge_def split: if_splits)

lemma complete_nodes_loop_head:
  "complete_nodes_loop wrap sz todo n d = Inr (n', d') \<Longrightarrow> take 1 (net_nodes n) = [(k, g)]
    \<Longrightarrow> k \<notin> set todo \<Longrightarrow> k \<in> set (keys d)
    \<Longrightarrow> take 1 (net_nodes n') = [(k, g)] \<and> k \<in> set (keys d')"
proof (induction todo arbitrary: n d)
  case Nil
  then show ?case by (simp split: if_splits)
next
  case (Cons a todo)
  from Cons.prems(1) obtain n1 d1 where a: "add_node wrap n a d [] = Inr (n1, d1)"
    and rest: "complete_nodes_loop wrap sz todo n1 d1 = Inr (n', d')"
    by (auto split: if_splits sum.splits)
  from Cons.prems(3) have ak: "a \<noteq> k" and nk: "k \<notin> set todo" by auto
  from add_node_keys[OF a] Cons.prems(4) have "k \<in> set (keys d1)" by simp
  from Cons.IH[OF rest add_node_keeps_head[OF a Cons.prems(2) ak] nk this] show ?case .
qed

lemma complete_refs_head:
  "complete_refs wrap node rs n d = Inr (n', d') \<Longrightarrow> take 1 (net_nodes n) = [(k, g)]
    \<Longrightarrow> k \<in> set (keys d) \<Longrightarrow> take 1 (net_nodes n') = [(k, g)] \<and> k \<in> set (keys d')"
proof (induction rs arbitrary: n d)
  case Nil
  then show ?case by auto
next
  case (Cons r rs)
  show ?case
  proof (cases "r \<in> set (keys d)")
    case True
    with Cons.prems obtain n2 where e: "net_add_edge n node r = Inr n2"
      and rest: "complete_refs wrap node rs n2 d = Inr (n', d')"
      by (auto split: sum.splits)
    from e Cons.prems(2) have "take 1 (net_nodes n2) = [(k, g)]"
      by (simp add: net_add_edge_nodes)
    from Cons.IH[OF rest this Cons.prems(3)] show ?thesis .
  next
    case False
    with Cons.prems obtain n1 d1 n2 where a: "add_node wrap n r d FAILURE_NODE_COLOR = Inr (n1, d1)"
      and e: "net_add_edge n1 node r = Inr n2"
      and rest: "complete_refs wrap node rs n2 d1 = Inr (n', d')"
      by (auto split: sum.splits)
    from False Cons.prems(3) have "r \<noteq> k" by auto
    from add_node_keeps_head[OF a Cons.prems(2) this] e
    have h: "take 1 (net_nodes n2) = [(k, g)]"
      by (simp add: net_add_edge_nodes)
    from add_node_keys[OF a] Cons.prems(3) have "k \<in> set (keys d1)" by auto
    from Cons.IH[OF rest h this] show ?thesis .
  qed
qed

lemma complete_objects_head:
  "complete_objects wrap node os n d = Inr (n', d') \<Longrightarrow> take 1 (net_nodes n) = [(k, g)]
    \<Longrightarrow> k \<in> set (keys d) \<Longrightarrow> take 1 (net_nodes n') = [(k, g)] \<and> k \<in> set (keys d')"
proof (induction os arbitrary: n d)
  case Nil
  then show ?case by auto
next
  case (Cons a os)
  from Cons.prems obtain n1 d1 where r: "complete_refs wrap node (obj_refs a) n d = Inr (n1, d1)"
     and rest: "complete_objects wrap node os n1 d1 = Inr (n', d')"
    by (auto split: sum.splits)
  from complete_refs_head[OF r Cons.prems(2,3)] Cons.IH[OF rest] show ?case by blast
qed


lemma complete_edges_loop_head:
  "complete_edges_loop wrap sz todo n d = Inr (n', d') \<Longrightarrow> take 1 (net_nodes n) = [(k, g)]
    \<Longrightarrow> k \<in> set (keys d) \<Longrightarrow> take 1 (net_nodes n') = [(k, g)]"
proof (induction todo arbitrary: n d)
  case Nil
  then show ?case by (auto split: if_splits)
next
  case (Cons a todo)
  from Cons.prems(1) obtain os d0 n1 d1 where g: "dd_get [] d a = (os, d0)"
    and o: "complete_objects wrap a os n d0 = Inr (n1, d1)"
    and rest: "complete_edges_loop wrap sz todo n1 d1 = Inr (n', d')"
    by (auto split: if_splits sum.splits prod.splits)
  from dd_get_keys[OF g] Cons.prems(3) have "k \<in> set (keys d0)" by auto
  from complete_objects_head[OF o Cons.prems(2) this] Cons.IH[OF rest] show ?case by blast
qed

subsection \<open>The entry node\<close>

text \<open>
  C10.  In the complete mode, started on an empty network, the first node of the network is
  the first key of the index and it has the entry colour, whatever its keyword is: the
  colour given to the first node is never replaced by the table's colour, neither when the
  node is made nor by any later step.  The index is a dict, so its keys are distinct.
\<close>

theorem entry_node_precedence:
  assumes "distinct (keys d)" and "d = (k, objs) # rest"
    and "make_graph_complete wrap empty_net d = Inr (n', d')"
  shows "\<exists>t. take 1 (net_nodes n') =
            [(k, \<lparr>gn_title = Some t, gn_color = Some ENTRY_NODE_COLOR\<rparr>)]"
proof -
  from assms(3) obtain n1 d1 where
    l1: "complete_nodes_loop wrap (length d) (keys d) empty_net d = Inr (n1, d1)"
    and l2: "complete_edges_loop wrap (length d1) (keys d1) n1 d1 = Inr (n', d')"
    by (auto simp: make_graph_complete_def split: sum.splits)
  from l1 assms(2) obtain n0 d0 where
    a: "add_node wrap empty_net k d [] = Inr (n0, d0)"
    and l1': "complete_nodes_loop wrap (length d) (keys rest) n0 d0 = Inr (n1, d1)"
    by (auto simp: keys_def split: sum.splits if_splits)
  from add_node_first[OF a] obtain t where
    t: "net_nodes n0 = [(k, \<lparr>gn_title = Some t, gn_color = Some ENTRY_NODE_COLOR\<rparr>)]" ..
  from assms(1,2) have nk: "k \<notin> set (keys rest)" by (simp add: keys_def)
  from add_node_keys[OF a] have "k \<in> set (keys d0)" by simp
  with complete_nodes_loop_head[OF l1' _ nk, of "\<lparr>gn_title = Some t, gn_color = Some ENTRY_NODE_COLOR\<rparr>"] t
  have h1: "take 1 (net_nodes n1) = [(k, \<lparr>gn_title = Some t, gn_color = Some ENTRY_NODE_COLOR\<rparr>)]"
    and k1: "k \<in> set (keys d1)" by auto
  from complete_edges_loop_head[OF l2 h1 k1] show ?thesis by blast
qed

theorem entry_node_precedence_witness:
  "distinct (keys entry_data) \<and>
   map_of NODE_COLOR ''CARTESIAN_POINT'' = Some ''lightgrey'' \<and>
   (\<forall>wrap. \<exists>n' d' t. make_graph_complete wrap empty_net entry_data = Inr (n', d') \<and>
      take 1 (net_nodes n') = [(''#1'', \<lparr>gn_title = Some t, gn_color = Some ''indigo''\<rparr>)])"
proof -
  have h1: "distinct (keys entry_data)"
    by (simp add: keys_def entry_data_def)
  have h2: "entry_data = (''#1'', snd (hd entry_data)) # []"
    by (simp add: entry_data_def)
  have h3: "\<exists>n' d'. make_graph_complete wrap empty_net entry_data = Inr (n', d')" for wrap
    by (simp add: make_graph_complete_def entry_data_def keys_def add_node_def dd_get_def
        empty_net_def num_nodes_def simple_entity_def Let_def)
  have "\<exists>n' d' t. make_graph_complete wrap empty_net entry_data = Inr (n', d') \<and>
      take 1 (net_nodes n') = [(''#1'', \<lparr>gn_title = Some t, gn_color = Some ''indigo''\<rparr>)]"
    for wrap
  proof -
    from h3 obtain n' d' where r: "make_graph_complete wrap empty_net entry_data = Inr (n', d')"
      by blast
    from entry_node_precedence [OF h1 h2 r] show ?thesis
      using r by (simp add: ENTRY_NODE_COLOR_def)
  qed
  with h1 show ?thesis
    by (simp add: NODE_COLOR_def)
qed

subsection \<open>The traversal from a root ends\<close>

lemma data_refs_mem:
  assumes "(k, objs) \<in> set d" and "a \<in> set objs" and "x \<in> set (obj_refs a)"
  shows "x \<in> set (data_refs d)"
proof -
  from assms(1,2) have "a \<in> set (concat (map snd d))" by force
  with assms(3) show ?thesis
    unfolding data_refs_def by force
qed

lemma dd_get_data_refs:
  assumes "dd_get [] d k = (objs, d')"
  shows "data_refs d' = data_refs d" and "set (concat (map obj_refs objs)) \<subseteq> set (data_refs d)"
proof -
  show "data_refs d' = data_refs d"
    using assms by (cases "map_of d k") (auto simp: dd_get_def data_refs_def)
  show "set (concat (map obj_refs objs)) \<subseteq> set (data_refs d)"
  proof (cases "map_of d k")
    case None
    with assms show ?thesis by (auto simp: dd_get_def)
  next
    case (Some v)
    with assms have "objs = v" by (auto simp: dd_get_def)
    with Some have "(k, objs) \<in> set d" by (auto dest: map_of_SomeD)
    then show ?thesis
      using data_refs_mem[of k objs d] by auto
  qed
qed

lemma add_node_data_refs:
  assumes "add_node wrap n node d fc = Inr (n1, d1)"
  shows "data_refs d1 = data_refs d"
proof -
  from add_node_Inr[OF assms] have "d1 = snd (dd_get [] d node)" by blast
  then show ?thesis
    using dd_get_data_refs(1)[of d node "fst (dd_get [] d node)" d1] by simp
qed

lemma keys_update: "set (keys (AList.update k v al)) = insert k (set (keys al))"
  by (simp add: keys_def dom_update)

lemma set_set_add: "set (set_add xs x) = insert x (set xs)"
  by (auto simp: set_add_def)

lemma entity_refs_sets:
  "entity_refs c rs nodes new = (nodes', new') \<Longrightarrow> c \<in> set (keys nodes) \<Longrightarrow>
     set (keys nodes') = set (keys nodes) \<and> set new' = set new \<union> set rs"
proof (induction rs arbitrary: nodes new)
  case Nil
  then show ?case by simp
next
  case (Cons r rs)
  obtain s nodes1 where g: "dd_get [] nodes c = (s, nodes1)" by (cases "dd_get [] nodes c")
  from dd_get_keys[OF g] Cons.prems(2) have k1: "set (keys nodes1) = set (keys nodes)" by auto
  let ?nodes2 = "AList.update c (set_add s r) nodes1"
  from k1 Cons.prems(2) have k2: "set (keys ?nodes2) = set (keys nodes)"
    by (auto simp: keys_update)
  from Cons.prems(1) g have rest: "entity_refs c rs ?nodes2 (set_add new r) = (nodes', new')"
    by simp
  from k2 Cons.prems(2) have "c \<in> set (keys ?nodes2)" by simp
  from Cons.IH[OF rest this] k2 show ?case by (auto simp: set_set_add)
qed

lemma entity_objects_sets:
  "entity_objects c objs nodes new = (nodes', new') \<Longrightarrow> c \<in> set (keys nodes) \<Longrightarrow>
     set (keys nodes') = set (keys nodes) \<and> set new' = set new \<union> set (concat (map obj_refs objs))"
proof (induction objs arbitrary: nodes new)
  case Nil
  then show ?case by simp
next
  case (Cons a objs)
  obtain nodes1 new1 where r: "entity_refs c (obj_refs a) nodes new = (nodes1, new1)"
    by (cases "entity_refs c (obj_refs a) nodes new")
  from entity_refs_sets[OF r Cons.prems(2)] have
    k1: "set (keys nodes1) = set (keys nodes)" and n1: "set new1 = set new \<union> set (obj_refs a)"
    by auto
  from Cons.prems(1) r have rest: "entity_objects c objs nodes1 new1 = (nodes', new')" by simp
  from k1 Cons.prems(2) have "c \<in> set (keys nodes1)" by simp
  from Cons.IH[OF rest this] k1 n1 show ?case by auto
qed

lemma entities_loop_sets:
  "entities_loop wrap es n d nodes new = Inr (n', d', nodes', new') \<Longrightarrow>
     set (keys nodes') = set (keys nodes) \<union> set es \<and>
     set new' \<subseteq> set new \<union> set (data_refs d) \<and>
     data_refs d' = data_refs d"
proof (induction es arbitrary: n d nodes new)
  case Nil
  then show ?case by simp
next
  case (Cons c es)
  show ?case
  proof (cases "c \<in> set (keys nodes)")
    case True
    with Cons.prems have "entities_loop wrap es n d nodes new = Inr (n', d', nodes', new')"
      by simp
    from Cons.IH[OF this] True show ?thesis by auto
  next
    case False
    obtain s nodes1 where g: "dd_get [] nodes c = (s, nodes1)" by (cases "dd_get [] nodes c")
    from dd_get_keys[OF g] have k1: "set (keys nodes1) = insert c (set (keys nodes))" .
    show ?thesis
    proof (cases "c \<in> set (keys d)")
      case True
      with False g Cons.prems obtain n1 d1 where a: "add_node wrap n c d [] = Inr (n1, d1)"
        by (auto split: sum.splits)
      obtain objs d2 where g2: "dd_get [] d1 c = (objs, d2)" by (cases "dd_get [] d1 c")
      obtain nodes2 new2 where o: "entity_objects c objs nodes1 new = (nodes2, new2)"
        by (cases "entity_objects c objs nodes1 new")
      from Cons.prems False g True a g2 o
      have rest: "entities_loop wrap es n1 d2 nodes2 new2 = Inr (n', d', nodes', new')"
        by simp
      from k1 have "c \<in> set (keys nodes1)" by simp
      from entity_objects_sets[OF o this] have
        k2: "set (keys nodes2) = set (keys nodes1)"
        and n2: "set new2 = set new \<union> set (concat (map obj_refs objs))" by auto
      from add_node_data_refs[OF a] dd_get_data_refs[OF g2]
      have r2: "data_refs d2 = data_refs d"
        and sub: "set (concat (map obj_refs objs)) \<subseteq> set (data_refs d)" by auto
      from Cons.IH[OF rest] have
        i1: "set (keys nodes') = set (keys nodes2) \<union> set es"
        and i2: "set new' \<subseteq> set new2 \<union> set (data_refs d2)"
        and i3: "data_refs d' = data_refs d2" by auto
      from i1 k1 k2 have "set (keys nodes') = set (keys nodes) \<union> set (c # es)" by auto
      moreover from i2 sub have "set new' \<subseteq> set new \<union> set (data_refs d)"
        unfolding n2 r2 by blast
      moreover from i3 r2 have "data_refs d' = data_refs d" by simp
      ultimately show ?thesis by simp
    next
      case nd: False
      with False g Cons.prems obtain n1 d1 where
        a: "add_node wrap n c d FAILURE_NODE_COLOR = Inr (n1, d1)"
        and rest: "entities_loop wrap es n1 d1 nodes1 new = Inr (n', d', nodes', new')"
        by (auto split: sum.splits)
      from Cons.IH[OF rest] have
        i1: "set (keys nodes') = set (keys nodes1) \<union> set es"
        and i2: "set new' \<subseteq> set new \<union> set (data_refs d1)"
        and i3: "data_refs d' = data_refs d1" by auto
      from i1 k1 have "set (keys nodes') = set (keys nodes) \<union> set (c # es)" by auto
      moreover from i2 have "set new' \<subseteq> set new \<union> set (data_refs d)"
        unfolding add_node_data_refs[OF a] .
      moreover from i3 have "data_refs d' = data_refs d"
        unfolding add_node_data_refs[OF a] .
      ultimately show ?thesis by simp
    qed
  qed
qed

lemma entities_loop_visited:
  "set es \<subseteq> set (keys nodes) \<Longrightarrow> entities_loop wrap es n d nodes new = Inr (n, d, nodes, new)"
  by (induction es) auto

lemma entity_while_terminates:
  "\<exists>r. entity_while wrap n d nodes entities = Some r"
proof (induction "2 * card ((set (data_refs d) \<union> set entities) - set (keys nodes))
                    + (if entities = [] then 0 else 1 :: nat)"
       arbitrary: n d nodes entities rule: less_induct)
  case less
  show ?case
  proof (cases "entities = []")
    case True
    then show ?thesis by (subst entity_while.simps) simp
  next
    case ne: False
    show ?thesis
    proof (cases "entities_loop wrap entities n d nodes []")
      case (Inl e)
      with ne show ?thesis by (subst entity_while.simps) simp
    next
      case (Inr p)
      obtain n1 d1 nodes1 new where p: "p = (n1, d1, nodes1, new)" by (cases p) auto
      with Inr have l: "entities_loop wrap entities n d nodes [] = Inr (n1, d1, nodes1, new)"
        by simp
      from entities_loop_sets[OF l] have
        k: "set (keys nodes1) = set (keys nodes) \<union> set entities"
        and nw: "set new \<subseteq> set (data_refs d)" and dr: "data_refs d1 = data_refs d" by auto
      let ?U = "(set (data_refs d) \<union> set entities) - set (keys nodes)"
      let ?U' = "(set (data_refs d1) \<union> set new) - set (keys nodes1)"
      have fin: "finite ?U" by simp
      have sub: "?U' \<subseteq> ?U" using k nw dr by auto
      have "2 * card ?U' + (if new = [] then 0 else 1)
              < 2 * card ?U + (if entities = [] then 0 else 1)"
      proof (cases "set entities \<subseteq> set (keys nodes)")
        case True
        from entities_loop_visited[OF True, of wrap n d "[]"] l have "new = []" by simp
        moreover from sub fin have "card ?U' \<le> card ?U" by (rule card_mono[rotated])
        ultimately show ?thesis using ne by simp
      next
        case False
        then obtain e where e: "e \<in> set entities" "e \<notin> set (keys nodes)" by auto
        then have "e \<in> ?U" "e \<notin> ?U'" using k by auto
        with sub have "?U' \<subset> ?U" by auto
        with fin have c: "card ?U' < card ?U" by (rule psubset_card_mono)
        have "2 * card ?U' + (if new = [] then 0 else 1) \<le> 2 * card ?U' + 1" by simp
        also have "\<dots> < 2 * card ?U + 1" using c by simp
        also have "\<dots> = 2 * card ?U + (if entities = [] then 0 else 1)" using ne by simp
        finally show ?thesis .
      qed
      from less[OF this] obtain r where "entity_while wrap n1 d1 nodes1 new = Some r" by blast
      with l ne show ?thesis by (subst entity_while.simps) simp
    qed
  qed
qed

lemmas graph_defs = make_graph_complete_def make_graph_entity_def keys_def add_node_def dd_get_def
  empty_net_def num_nodes_def simple_entity_def Let_def net_add_node_def net_add_edge_def
  set_title_color_def set_add_def ENTRY_NODE_COLOR_def FAILURE_NODE_COLOR_def NODE_COLOR_def
  SPLIT_STRING_SIZE_def

text \<open>
  C4.  The traversal from a root returns for every network, index and root, cyclic
  references or not: each round of the \<open>while\<close> loop either visits an id that was not
  visited before, and the ids that can ever be visited are the root and the references of
  the index, or it visits none and leaves no id for the next round.  For the two entities
  \<open>#1=FOO(#2);\<close> \<open>#2=PCURVE(#1);\<close> and the root \<open>#1\<close> the result is a network of exactly
  the two nodes \<open>#1\<close> and \<open>#2\<close>, with the two edges of the cycle.
\<close>

theorem rooted_terminates:
  "(\<exists>r. make_graph_entity wrap n d entity = Some r) \<and>
   (\<exists>n' d'. make_graph_entity wrap empty_net cycle_data ''#1'' = Some (Inr (n', d')) \<and>
      keys (net_nodes n') = [''#1'', ''#2''] \<and>
      net_edges n' = [(''#1'', ''#2''), (''#2'', ''#1'')])"
proof
  from entity_while_terminates obtain r where "entity_while wrap n d [] [entity] = Some r"
    by blast
  then show "\<exists>r. make_graph_entity wrap n d entity = Some r"
    by (auto simp: make_graph_entity_def split: sum.splits)
next
  show "\<exists>n' d'. make_graph_entity wrap empty_net cycle_data ''#1'' = Some (Inr (n', d')) \<and>
      keys (net_nodes n') = [''#1'', ''#2''] \<and>
      net_edges n' = [(''#1'', ''#2''), (''#2'', ''#1'')]"
    apply (simp add: make_graph_entity_def)
    apply (subst entity_while.simps)
    apply (simp add: graph_defs cycle_data_def)
    apply (subst entity_while.simps)
    apply (simp add: graph_defs cycle_data_def)
    apply (subst entity_while.simps)
    apply (simp add: graph_defs cycle_data_def)
    apply (subst entity_while.simps)
    apply (simp add: graph_defs cycle_data_def)
    done
qed

subsection \<open>A reference without an entity, in the complete mode\<close>

text \<open>
  C5.  For the data section \<open>#1=FOO(#2);\<close> the complete mode does not return a network:
  the node \<open>#2\<close> is made by \<open>add_node\<close>, whose read \<open>data[node]\<close> adds the key \<open>#2\<close> to the
  index while \<open>for node in data\<close> is iterating it, and the next step of that loop raises
  a \<open>RuntimeError\<close>.
\<close>

theorem complete_dangling_raises:
  "make_graph_complete wrap empty_net dangling_data = Inl RuntimeError"
  by (simp add: graph_defs dangling_data_def)

subsection \<open>The index after a graph is built\<close>

text \<open>
  C3.  For the data section \<open>#1=FOO(#2);\<close> the rooted mode, from the root \<open>#1\<close>, returns
  an index that has the new key \<open>#2\<close>; building the same graph again from the index as it
  is now gives another network, in which the node \<open>#2\<close> has no colour where it had the
  failure colour before.
\<close>

theorem rooted_build_changes_model:
  "\<exists>n1 d1 n2 d2.
     make_graph_entity wrap empty_net dangling_data ''#1'' = Some (Inr (n1, d1)) \<and>
     d1 \<noteq> dangling_data \<and>
     make_graph_entity wrap empty_net d1 ''#1'' = Some (Inr (n2, d2)) \<and>
     n2 \<noteq> n1 \<and>
     map_of (net_nodes n1) ''#2'' = Some \<lparr>gn_title = Some [], gn_color = Some FAILURE_NODE_COLOR\<rparr> \<and>
     map_of (net_nodes n2) ''#2'' = Some \<lparr>gn_title = Some [], gn_color = None\<rparr>"
proof -
  have b1: "make_graph_entity wrap empty_net dangling_data ''#1'' =
     Some (Inr (\<lparr>net_nodes =
                   [(''#1'', \<lparr>gn_title = Some (join ''<br>'' (wrap ''FOO(#2)'' 100)),
                              gn_color = Some ''indigo''\<rparr>),
                    (''#2'', \<lparr>gn_title = Some [], gn_color = Some ''red''\<rparr>)],
                 net_edges = [(''#1'', ''#2'')]\<rparr>,
                dangling_data @ [(''#2'', [])]))"
    apply (simp add: make_graph_entity_def)
    apply (subst entity_while.simps)
    apply (simp add: graph_defs dangling_data_def)
    apply (subst entity_while.simps)
    apply (simp add: graph_defs dangling_data_def)
    apply (subst entity_while.simps)
    apply (simp add: graph_defs dangling_data_def)
    done
  have b2: "make_graph_entity wrap empty_net (dangling_data @ [(''#2'', [])]) ''#1'' =
     Some (Inr (\<lparr>net_nodes =
                   [(''#1'', \<lparr>gn_title = Some (join ''<br>'' (wrap ''FOO(#2)'' 100)),
                              gn_color = Some ''indigo''\<rparr>),
                    (''#2'', \<lparr>gn_title = Some [], gn_color = None\<rparr>)],
                 net_edges = [(''#1'', ''#2'')]\<rparr>,
                dangling_data @ [(''#2'', [])]))"
    apply (simp add: make_graph_entity_def)
    apply (subst entity_while.simps)
    apply (simp add: graph_defs dangling_data_def)
    apply (subst entity_while.simps)
    apply (simp add: graph_defs dangling_data_def)
    apply (subst entity_while.simps)
    apply (simp add: graph_defs dangling_data_def)
    done
  show ?thesis
    unfolding b1 by (simp add: b2 FAILURE_NODE_COLOR_def)
qed

section \<open>Properties of the indexer\<close>

subsection \<open>An id that occurs twice\<close>

lemma explore_entity_new:
  assumes "e_id x \<notin> set (keys objects)"
  shows "explore_entity fc objects (entity_of x) = Inr (objects @ [(e_id x, [object_of x])])"
proof -
  have m: "map_of objects (e_id x) = None" using assms by (rule map_of_None_keys)
  have u: "AList.update (e_id x) v (objects @ [(e_id x, [])]) = objects @ [(e_id x, v)]" for v
    using assms by (induction objects) (auto simp: keys_def)
  have g1: "dd_get [] objects (e_id x) = ([], objects @ [(e_id x, [])])"
    by (simp add: dd_get_def m)
  have g2: "dd_get [] (objects @ [(e_id x, [])]) (e_id x) = ([], objects @ [(e_id x, [])])"
    by (simp add: dd_get_def m map_add_def)
  show ?thesis
    by (simp add: explore_entity_def entity_of_def item_def g1 g2 u object_of_def
        split_beta Let_def)
qed

lemma explore_entity_dup:
  assumes "map_of objects (e_id x) = Some v" and "v \<noteq> []"
  shows "explore_entity fc objects (entity_of x) =
           Inl (DuplicateNameError fc (e_id x) (e_line x, e_line x))"
  using assms
  by (simp add: explore_entity_def entity_of_def item_def dd_get_def split_beta Let_def)

lemma explore_entities_append:
  "explore_entities fc objects (as @ bs) =
     (case explore_entities fc objects as of
        Inl e \<Rightarrow> Inl e
      | Inr objects1 \<Rightarrow> explore_entities fc objects1 bs)"
  by (induction as arbitrary: objects) (auto split: sum.splits)

lemma explore_entities_distinct:
  "distinct (map e_id xs) \<Longrightarrow> set (map e_id xs) \<inter> set (keys objects) = {} \<Longrightarrow>
   explore_entities fc objects (map entity_of xs) =
     Inr (objects @ map (\<lambda>x. (e_id x, [object_of x])) xs)"
proof (induction xs arbitrary: objects)
  case Nil
  then show ?case by simp
next
  case (Cons x xs)
  from Cons.prems(2) have nx: "e_id x \<notin> set (keys objects)" by auto
  have d: "distinct (map e_id xs)" using Cons.prems(1) by simp
  have dj: "set (map e_id xs) \<inter> set (keys (objects @ [(e_id x, [object_of x])])) = {}"
    using Cons.prems by (auto simp: keys_def)
  show ?case
    by (simp add: explore_entity_new[OF nx] Cons.IH[OF d dj])
qed

lemma indexed_nonempty:
  "k \<in> set (map e_id pre) \<Longrightarrow>
     \<exists>v. map_of (map (\<lambda>x. (e_id x, [object_of x])) pre) k = Some v \<and> v \<noteq> []"
  by (induction pre) auto

lemma first_repeat:
  "\<not> distinct (map f xs) \<Longrightarrow>
     \<exists>pre x post. xs = pre @ x # post \<and> distinct (map f pre) \<and> f x \<in> set (map f pre)"
proof (induction xs rule: rev_induct)
  case Nil
  then show ?case by simp
next
  case (snoc x xs)
  show ?case
  proof (cases "distinct (map f xs)")
    case True
    with snoc.prems have "f x \<in> set (map f xs)" by auto
    with True show ?thesis by blast
  next
    case False
    from snoc.IH[OF this] obtain pre y post where
      "xs = pre @ y # post" "distinct (map f pre)" "f y \<in> set (map f pre)" by blast
    then have "xs @ [x] = pre @ y # (post @ [x])" by simp
    with \<open>distinct (map f pre)\<close> \<open>f y \<in> set (map f pre)\<close> show ?thesis by blast
  qed
qed

text \<open>
  C2.  When some id occurs a second time among the entities of a data section, the indexer
  ends with the \<open>DuplicateNameError\<close> of the first id that is met again: its \<open>name\<close> is
  that id, and both of its line numbers, hence the \<open>lineno\<close> of \<open>asdict\<close>, are the line of
  the id token of that second occurrence.  The entities before it have distinct ids; no
  index is returned.
\<close>

theorem duplicate_name_raised:
  assumes "\<not> distinct (map e_id xs)"
  shows "\<exists>pre x post. xs = pre @ x # post \<and> distinct (map e_id pre) \<and>
           e_id x \<in> set (map e_id pre) \<and>
           explore_data fc (PTree ''data_section'' (map entity_of xs)) =
             Inl (DuplicateNameError fc (e_id x) (e_line x, e_line x)) \<and>
           (case duplicate_asdict fc (e_id x) (e_line x, e_line x) of
              Inl e \<Rightarrow> True
            | Inr r \<Rightarrow> dd_name r = e_id x \<and> dd_lineno r = e_line x)"
proof -
  from first_repeat[OF assms] obtain pre x post where
    xs: "xs = pre @ x # post" and d: "distinct (map e_id pre)"
    and m: "e_id x \<in> set (map e_id pre)" by blast
  have pre: "explore_entities fc [] (map entity_of pre) =
               Inr (map (\<lambda>x. (e_id x, [object_of x])) pre)"
    using explore_entities_distinct[OF d, of "[]" fc] by (simp add: keys_def)
  from indexed_nonempty[OF m] obtain v where
    v: "map_of (map (\<lambda>x. (e_id x, [object_of x])) pre) (e_id x) = Some v" and "v \<noteq> []"
    by blast
  have "explore_data fc (PTree ''data_section'' (map entity_of xs)) =
             Inl (DuplicateNameError fc (e_id x) (e_line x, e_line x))"
    unfolding explore_data_def xs
    by (simp add: explore_entities_append pre explore_entity_dup[OF v \<open>v \<noteq> []\<close>])
  moreover have "case duplicate_asdict fc (e_id x) (e_line x, e_line x) of
              Inl e \<Rightarrow> True
            | Inr r \<Rightarrow> dd_name r = e_id x \<and> dd_lineno r = e_line x"
    by (simp add: duplicate_asdict_def split: sum.splits)
  ultimately show ?thesis using xs d m by blast
qed

theorem duplicate_name_raised_witness:
  "\<not> distinct (map e_id duplicate_entities) \<and>
   (\<forall>fc. explore_data fc (PTree ''data_section'' (map entity_of duplicate_entities)) =
            Inl (DuplicateNameError fc ''#1'' (2, 2)))"
proof -
  have h: "\<not> distinct (map e_id duplicate_entities)"
    by (simp add: duplicate_entities_def)
  have "explore_data fc (PTree ''data_section'' (map entity_of duplicate_entities)) =
            Inl (DuplicateNameError fc ''#1'' (2, 2))" for fc
  proof -
    from duplicate_name_raised [OF h, of fc] obtain pre x post where
      r: "explore_data fc (PTree ''data_section'' (map entity_of duplicate_entities)) =
         Inl (DuplicateNameError fc (e_id x) (e_line x, e_line x))"
      and xs: "duplicate_entities = pre @ x # post" and m: "e_id x \<in> set (map e_id pre)"
      by blast
    from xs m have "pre \<noteq> []" by auto
    with xs have "x = duplicate_entities ! 1"
      by (cases pre; cases "tl pre") (auto simp: duplicate_entities_def)
    then have "e_id x = ''#1''" and "e_line x = 2"
      by (simp_all add: duplicate_entities_def)
    with r show ?thesis
      by simp
  qed
  with h show ?thesis by blast
qed

end
